theory Spec2Isabelle
  imports Main
begin

section \<open>The Quoridor game state of \<^verbatim>\<open>Quoridor.py\<close>\<close>

text \<open>
  The class \<^verbatim>\<open>QuoridorGame\<close> keeps a 10 x 10 board of three-slot cells
  (\<^verbatim>\<open>[pawn, horizontal fence, vertical fence]\<close>), two fence counters, the
  current player and the winner.  The board is indexed \<^verbatim>\<open>_board[row][column]\<close>
  while the public coordinates are pairs \<^verbatim>\<open>(column, row)\<close>, so
  \<^verbatim>\<open>coord[0]\<close> is the column and \<^verbatim>\<open>coord[1]\<close> the row.
\<close>

subsection \<open>Data\<close>

text \<open>\<^verbatim>\<open>class Fence\<close>: an orientation tag and nothing else.\<close>

datatype fence = Fence string

fun get_orientation :: "fence \<Rightarrow> string" where
  "get_orientation (Fence orientation) = orientation"

text \<open>
  A cell is the Python list \<^verbatim>\<open>[None, None, None]\<close>; it is only ever indexed
  with the literals 0, 1 and 2, which become the three fields.
\<close>

record cell =
  pawn :: "int option"
  hfence :: "fence option"
  vfence :: "fence option"

record game =
  board :: "cell list list"
  p1_fence_count :: int
  p2_fence_count :: int
  current_player :: int
  winner :: "int option"

text \<open>
  The only exception the methods can raise on integer coordinates is the
  \<^verbatim>\<open>IndexError\<close> of a list subscript.  A method either raises or returns
  \<^verbatim>\<open>True\<close>, \<^verbatim>\<open>False\<close> or (by falling off its end) \<^verbatim>\<open>None\<close>.
\<close>

datatype error = IndexError

datatype ret = RetBool bool | RetNone

type_synonym outcome = "error + ret"

subsection \<open>Python list subscripts\<close>

text \<open>
  \<^verbatim>\<open>xs[i]\<close> accepts \<open>-len \<le> i < len\<close>; a negative index counts from the end,
  anything else raises.  \<open>None\<close> stands for the raised \<^verbatim>\<open>IndexError\<close>.
\<close>

definition py_index :: "nat \<Rightarrow> int \<Rightarrow> nat option" where
  "py_index n i =
     (if 0 \<le> i \<and> i < int n then Some (nat i)
      else if i < 0 \<and> - int n \<le> i then Some (nat (int n + i))
      else None)"

text \<open>Reading \<^verbatim>\<open>self._board[i][j]\<close>.\<close>

definition board_get :: "cell list list \<Rightarrow> int \<Rightarrow> int \<Rightarrow> cell option" where
  "board_get b i j =
     (case py_index (length b) i of
        None \<Rightarrow> None
      | Some r \<Rightarrow>
          (case py_index (length (b ! r)) j of
             None \<Rightarrow> None
           | Some c \<Rightarrow> Some (b ! r ! c)))"

text \<open>Assigning one slot of \<^verbatim>\<open>self._board[i][j]\<close>; \<open>f\<close> is the slot update.\<close>

definition board_set :: "cell list list \<Rightarrow> int \<Rightarrow> int \<Rightarrow> (cell \<Rightarrow> cell) \<Rightarrow> cell list list option" where
  "board_set b i j f =
     (case py_index (length b) i of
        None \<Rightarrow> None
      | Some r \<Rightarrow>
          (case py_index (length (b ! r)) j of
             None \<Rightarrow> None
           | Some c \<Rightarrow> Some (b[r := (b ! r)[c := f (b ! r ! c)]])))"

text \<open>
  The three tests the methods make on a cell; \<open>None\<close> again is the
  \<^verbatim>\<open>IndexError\<close> of the subscript.
\<close>

definition pawn_is :: "game \<Rightarrow> int \<Rightarrow> int \<Rightarrow> int option \<Rightarrow> bool option" where
  "pawn_is s i j player = map_option (\<lambda>x. pawn x = player) (board_get (board s) i j)"

definition hfence_free :: "game \<Rightarrow> int \<Rightarrow> int \<Rightarrow> bool option" where
  "hfence_free s i j = map_option (\<lambda>x. hfence x = None) (board_get (board s) i j)"

definition vfence_free :: "game \<Rightarrow> int \<Rightarrow> int \<Rightarrow> bool option" where
  "vfence_free s i j = map_option (\<lambda>x. vfence x = None) (board_get (board s) i j)"

text \<open>
  Python's short-circuit \<^verbatim>\<open>a and b\<close>: \<open>b\<close> is evaluated, and can raise, only
  when \<open>a\<close> is true.
\<close>

definition py_and :: "bool option \<Rightarrow> bool option \<Rightarrow> bool option" where
  "py_and a b = (case a of None \<Rightarrow> None | Some False \<Rightarrow> Some False | Some True \<Rightarrow> b)"

subsection \<open>Pawn movement\<close>

text \<open>
  \<^verbatim>\<open>move_pawn_success(player, prev, current)\<close>: write the pawn into the new
  cell, clear the old one, test for a win and hand the turn over.
\<close>

definition move_pawn_success :: "game \<Rightarrow> int option \<Rightarrow> int \<times> int \<Rightarrow> int \<times> int \<Rightarrow> outcome \<times> game" where
  "move_pawn_success s player prev current =
     (case board_set (board s) (snd current) (fst current) (\<lambda>x. x\<lparr>pawn := player\<rparr>) of
        None \<Rightarrow> (Inl IndexError, s)
      | Some b1 \<Rightarrow>
          (case board_set b1 (snd prev) (fst prev) (\<lambda>x. x\<lparr>pawn := None\<rparr>) of
             None \<Rightarrow> (Inl IndexError, s\<lparr>board := b1\<rparr>)
           | Some b2 \<Rightarrow>
               (let s2 = s\<lparr>board := b2\<rparr> in
                if player = Some 1 then
                  (Inr (RetBool True),
                   (if fst current = 8 then s2\<lparr>winner := Some 1\<rparr> else s2)\<lparr>current_player := 2\<rparr>)
                else if player = Some 2 then
                  (Inr (RetBool True),
                   (if fst current = 0 then s2\<lparr>winner := Some 0\<rparr> else s2)\<lparr>current_player := 1\<rparr>)
                else (Inr (RetBool True), s2))))"

text \<open>
  \<^verbatim>\<open>move_pawn(player, coord)\<close>.  The guard tests \<^verbatim>\<open>coord[1] > 8\<close> twice and
  \<^verbatim>\<open>coord[0] > 8\<close> never.  The four \<^verbatim>\<open>elif\<close> branches look for the pawn
  in the row above, the row below, the column to the left and the column to the right
  of the target, in that order.
\<close>

definition move_pawn :: "game \<Rightarrow> int option \<Rightarrow> int \<times> int \<Rightarrow> outcome \<times> game" where
  "move_pawn s player coord =
     (let c = fst coord; r = snd coord in
      if r < 0 \<or> r > 8 \<or> c < 0 \<or> r > 8 \<or> winner s \<noteq> None \<or> player \<noteq> Some (current_player s)
      then (Inr (RetBool False), s)
      else
        (case py_and (pawn_is s (r - 1) c player) (hfence_free s r c) of
           None \<Rightarrow> (Inl IndexError, s)
         | Some True \<Rightarrow> move_pawn_success s player (c, r - 1) coord
         | Some False \<Rightarrow>
        (case py_and (pawn_is s (r + 1) c player) (hfence_free s (r + 1) c) of
           None \<Rightarrow> (Inl IndexError, s)
         | Some True \<Rightarrow> move_pawn_success s player (c, r + 1) coord
         | Some False \<Rightarrow>
        (case py_and (pawn_is s r (c - 1) player) (vfence_free s r c) of
           None \<Rightarrow> (Inl IndexError, s)
         | Some True \<Rightarrow> move_pawn_success s player (c - 1, r) coord
         | Some False \<Rightarrow>
        (case py_and (pawn_is s r (c + 1) player) (vfence_free s r (c + 1)) of
           None \<Rightarrow> (Inl IndexError, s)
         | Some True \<Rightarrow> move_pawn_success s player (c + 1, r) coord
         | Some False \<Rightarrow> (Inr (RetBool False), s))))))"

subsection \<open>Fence placement\<close>

text \<open>
  \<^verbatim>\<open>fence_placed_success(player)\<close> returns \<^verbatim>\<open>True\<close> only under
  \<^verbatim>\<open>if player is not None\<close>; for the null player it falls off the end.
\<close>

definition fence_placed_success :: "game \<Rightarrow> int option \<Rightarrow> outcome \<times> game" where
  "fence_placed_success s player =
     (let s1 = (if player = Some 1 then s\<lparr>p1_fence_count := p1_fence_count s - 1, current_player := 2\<rparr>
                else if player = Some 2 then s\<lparr>p2_fence_count := p2_fence_count s - 1, current_player := 1\<rparr>
                else s)
      in if player \<noteq> None then (Inr (RetBool True), s1) else (Inr RetNone, s1))"

definition place_fence :: "game \<Rightarrow> int option \<Rightarrow> string \<Rightarrow> int \<times> int \<Rightarrow> outcome \<times> game" where
  "place_fence s player orient coord =
     (let c = fst coord; r = snd coord in
      if r < 0 \<or> r > 8 \<or> c < 0 \<or> r > 8 \<or> winner s \<noteq> None
         \<or> (player \<noteq> None \<and> player \<noteq> Some (current_player s))
      then (Inr (RetBool False), s)
      else if (player = Some 1 \<and> p1_fence_count s = 0) \<or> (player = Some 2 \<and> p2_fence_count s = 0)
      then (Inr (RetBool False), s)
      else
        (case py_and (Some (orient = ''h'')) (hfence_free s r c) of
           None \<Rightarrow> (Inl IndexError, s)
         | Some True \<Rightarrow>
             (case board_set (board s) r c (\<lambda>x. x\<lparr>hfence := Some (Fence orient)\<rparr>) of
                None \<Rightarrow> (Inl IndexError, s)
              | Some b \<Rightarrow> fence_placed_success (s\<lparr>board := b\<rparr>) player)
         | Some False \<Rightarrow>
        (case py_and (Some (orient = ''v'')) (vfence_free s r c) of
           None \<Rightarrow> (Inl IndexError, s)
         | Some True \<Rightarrow>
             (case board_set (board s) r c (\<lambda>x. x\<lparr>vfence := Some (Fence orient)\<rparr>) of
                None \<Rightarrow> (Inl IndexError, s)
              | Some b \<Rightarrow> fence_placed_success (s\<lparr>board := b\<rparr>) player)
         | Some False \<Rightarrow> (Inr (RetBool False), s))))"

subsection \<open>Win query\<close>

definition is_winner :: "game \<Rightarrow> int option \<Rightarrow> bool" where
  "is_winner s player = (if winner s = player then True else False)"

subsection \<open>Construction\<close>

text \<open>
  \<^verbatim>\<open>__init__\<close>: the empty board, the two pawns, the counters, and then the
  double loop that calls \<^verbatim>\<open>place_fence(None, ...)\<close> and discards what it
  returns.  An exception inside the loop would leave the constructor.
\<close>

definition empty_cell :: cell where
  "empty_cell = \<lparr>pawn = None, hfence = None, vfence = None\<rparr>"

definition blank_game :: "error + game" where
  "blank_game =
     (let b0 = replicate 10 (replicate 10 empty_cell) in
      case board_set b0 0 4 (\<lambda>x. x\<lparr>pawn := Some 1\<rparr>) of
        None \<Rightarrow> Inl IndexError
      | Some b1 \<Rightarrow>
          (case board_set b1 8 4 (\<lambda>x. x\<lparr>pawn := Some 2\<rparr>) of
             None \<Rightarrow> Inl IndexError
           | Some b2 \<Rightarrow>
               Inr \<lparr>board = b2, p1_fence_count = 10, p2_fence_count = 10,
                    current_player = 1, winner = None\<rparr>))"

definition init_cell :: "game \<Rightarrow> int \<Rightarrow> int \<Rightarrow> error + game" where
  "init_cell s column row =
     (case (if column = 0 \<or> column = 9 then place_fence s None ''v'' (column, row)
            else (Inr RetNone, s)) of
        (Inl e, _) \<Rightarrow> Inl e
      | (Inr _, s1) \<Rightarrow>
          (case (if row = 0 \<or> row = 9 then place_fence s1 None ''h'' (column, row)
                 else (Inr RetNone, s1)) of
             (Inl e, _) \<Rightarrow> Inl e
           | (Inr _, s2) \<Rightarrow> Inr s2))"

fun init_rows :: "game \<Rightarrow> int \<Rightarrow> int list \<Rightarrow> error + game" where
  "init_rows s column [] = Inr s"
| "init_rows s column (row # rows) =
     (case init_cell s column row of Inl e \<Rightarrow> Inl e | Inr s1 \<Rightarrow> init_rows s1 column rows)"

fun init_columns :: "game \<Rightarrow> int list \<Rightarrow> error + game" where
  "init_columns s [] = Inr s"
| "init_columns s (column # columns) =
     (case init_rows s column [0..9] of Inl e \<Rightarrow> Inl e | Inr s1 \<Rightarrow> init_columns s1 columns)"

definition QuoridorGame_init :: "error + game" where
  "QuoridorGame_init =
     (case blank_game of Inl e \<Rightarrow> Inl e | Inr s \<Rightarrow> init_columns s [0..9])"

text \<open>The game a caller gets from \<^verbatim>\<open>QuoridorGame()\<close>.\<close>

definition new_game :: game where
  "new_game = projr QuoridorGame_init"

text \<open>
  The cells of the board the constructor leaves behind, in closed form (rows and
  columns as list positions).
\<close>

definition start_cell :: "nat \<Rightarrow> nat \<Rightarrow> cell" where
  "start_cell row column =
     \<lparr>pawn = (if row = 0 \<and> column = 4 then Some 1 else if row = 8 \<and> column = 4 then Some 2 else None),
      hfence = (if row = 0 then Some (Fence ''h'') else None),
      vfence = (if (column = 0 \<or> column = 9) \<and> row \<le> 8 then Some (Fence ''v'') else None)\<rparr>"

subsection \<open>Sequences of calls\<close>

text \<open>
  A caller drives the game through its two mutating methods.  The state after a call
  is the state the method left behind, also when it raised.
\<close>

datatype action =
    Move_pawn "int option" "int \<times> int"
  | Place_fence "int option" string "int \<times> int"

fun actor :: "action \<Rightarrow> int option" where
  "actor (Move_pawn player coord) = player"
| "actor (Place_fence player orient coord) = player"

fun call :: "game \<Rightarrow> action \<Rightarrow> outcome \<times> game" where
  "call s (Move_pawn player coord) = move_pawn s player coord"
| "call s (Place_fence player orient coord) = place_fence s player orient coord"

fun run :: "game \<Rightarrow> action list \<Rightarrow> game" where
  "run s [] = s"
| "run s (a # as) = run (snd (call s a)) as"

fun outcomes :: "game \<Rightarrow> action list \<Rightarrow> outcome list" where
  "outcomes s [] = []"
| "outcomes s (a # as) = fst (call s a) # outcomes (snd (call s a)) as"

text \<open>The players of the calls that returned \<^verbatim>\<open>True\<close>, in order.\<close>

fun successful_players :: "game \<Rightarrow> action list \<Rightarrow> int option list" where
  "successful_players s [] = []"
| "successful_players s (a # as) =
     (if fst (call s a) = Inr (RetBool True) then [actor a] else [])
       @ successful_players (snd (call s a)) as"

fun alternates :: "int \<Rightarrow> int option list \<Rightarrow> bool" where
  "alternates p [] = True"
| "alternates p (x # xs) = (x = Some p \<and> alternates (3 - p) xs)"

text \<open>Whether an action is a fence placement made in the name of player \<open>p\<close>.\<close>

fun is_placement_by :: "action \<Rightarrow> int \<Rightarrow> bool" where
  "is_placement_by (Move_pawn player coord) p = False"
| "is_placement_by (Place_fence player orient coord) p = (player = Some p)"

text \<open>How many placements by player \<open>p\<close> returned \<^verbatim>\<open>True\<close> along a sequence of calls.\<close>

fun successful_placements :: "game \<Rightarrow> action list \<Rightarrow> int \<Rightarrow> nat" where
  "successful_placements s [] p = 0"
| "successful_placements s (a # as) p =
     (if is_placement_by a p \<and> fst (call s a) = Inr (RetBool True) then 1 else 0)
       + successful_placements (snd (call s a)) as p"

subsection \<open>Reading a position\<close>

text \<open>
  The cell at the public coordinate \<open>(column, row)\<close> of the 10 x 10 grid, without
  Python's wrap-around: outside the grid there is nothing.
\<close>

definition board_cell :: "cell list list \<Rightarrow> int \<times> int \<Rightarrow> cell" where
  "board_cell b pos =
     (if 0 \<le> fst pos \<and> fst pos \<le> 9 \<and> 0 \<le> snd pos \<and> snd pos \<le> 9
      then b ! nat (snd pos) ! nat (fst pos) else empty_cell)"

definition cell_of :: "game \<Rightarrow> int \<times> int \<Rightarrow> cell" where
  "cell_of s pos = board_cell (board s) pos"

definition pawn_at :: "game \<Rightarrow> int \<times> int \<Rightarrow> int option" where
  "pawn_at s pos = pawn (cell_of s pos)"

text \<open>How many cells of the whole board hold the pawn of player \<open>p\<close>.\<close>

definition pawn_count :: "game \<Rightarrow> int \<Rightarrow> nat" where
  "pawn_count s p = length (filter (\<lambda>x. pawn x = Some p) (concat (board s)))"

text \<open>
  The four cells that share an edge with a cell, and the slot in which the board
  keeps the fence of such an edge: the horizontal slot of the cell with the larger
  row for two cells of one column, the vertical slot of the cell with the larger
  column for two cells of one row.  \<^verbatim>\<open>place_fence\<close> writes these slots and
  \<^verbatim>\<open>move_pawn\<close> reads the same slot for either direction of travel.
\<close>

definition orthogonal_neighbours :: "int \<times> int \<Rightarrow> (int \<times> int) list" where
  "orthogonal_neighbours t =
     [(fst t, snd t - 1), (fst t, snd t + 1), (fst t - 1, snd t), (fst t + 1, snd t)]"

definition edge_fence :: "game \<Rightarrow> int \<times> int \<Rightarrow> int \<times> int \<Rightarrow> fence option" where
  "edge_fence s a b =
     (if fst a = fst b then hfence (cell_of s (fst a, max (snd a) (snd b)))
      else vfence (cell_of s (max (fst a) (fst b), snd a)))"

text \<open>
  The rule for a pawn move as the specification words it: the caller's pawn is on
  a cell orthogonally adjacent to the target, and the edge between the two carries
  no fence.
\<close>

definition legal_move :: "game \<Rightarrow> int option \<Rightarrow> int \<times> int \<Rightarrow> bool" where
  "legal_move s player t =
     list_ex (\<lambda>src. pawn_at s src = player \<and> edge_fence s src t = None)
       (orthogonal_neighbours t)"

subsection \<open>Scenarios\<close>

text \<open>Player 1 walks east along row 0 to column 8 while player 2 steps back and forth.\<close>

definition p1_reaches_column_8 :: "action list" where
  "p1_reaches_column_8 =
     [Move_pawn (Some 1) (5, 0), Move_pawn (Some 2) (4, 7), Move_pawn (Some 1) (6, 0),
      Move_pawn (Some 2) (4, 8), Move_pawn (Some 1) (7, 0), Move_pawn (Some 2) (4, 7),
      Move_pawn (Some 1) (8, 0)]"

text \<open>Player 2 walks west along row 8 to column 0 while player 1 steps back and forth.\<close>

definition p2_reaches_column_0 :: "action list" where
  "p2_reaches_column_0 =
     [Move_pawn (Some 1) (4, 1), Move_pawn (Some 2) (3, 8), Move_pawn (Some 1) (4, 0),
      Move_pawn (Some 2) (2, 8), Move_pawn (Some 1) (4, 1), Move_pawn (Some 2) (1, 8),
      Move_pawn (Some 1) (4, 0), Move_pawn (Some 2) (0, 8)]"

text \<open>
  The two pawns walk towards each other along column 4; with the last move player 2
  steps onto the cell on which player 1 stands.
\<close>

definition pawns_meet :: "action list" where
  "pawns_meet =
     [Move_pawn (Some 1) (4, 1), Move_pawn (Some 2) (4, 7), Move_pawn (Some 1) (4, 2),
      Move_pawn (Some 2) (4, 6), Move_pawn (Some 1) (4, 3), Move_pawn (Some 2) (4, 5),
      Move_pawn (Some 1) (4, 4), Move_pawn (Some 2) (4, 4)]"

text \<open>
  Player 1 places ten horizontal fences, nine along row 1 and one in row 2, while
  player 2 steps back and forth; afterwards it is player 1's turn again.
\<close>

definition p1_spends_reserve :: "action list" where
  "p1_spends_reserve =
     [Place_fence (Some 1) ''h'' (0, 1), Move_pawn (Some 2) (4, 7),
      Place_fence (Some 1) ''h'' (1, 1), Move_pawn (Some 2) (4, 8),
      Place_fence (Some 1) ''h'' (2, 1), Move_pawn (Some 2) (4, 7),
      Place_fence (Some 1) ''h'' (3, 1), Move_pawn (Some 2) (4, 8),
      Place_fence (Some 1) ''h'' (4, 1), Move_pawn (Some 2) (4, 7),
      Place_fence (Some 1) ''h'' (5, 1), Move_pawn (Some 2) (4, 8),
      Place_fence (Some 1) ''h'' (6, 1), Move_pawn (Some 2) (4, 7),
      Place_fence (Some 1) ''h'' (7, 1), Move_pawn (Some 2) (4, 8),
      Place_fence (Some 1) ''h'' (8, 1), Move_pawn (Some 2) (4, 7),
      Place_fence (Some 1) ''h'' (0, 2), Move_pawn (Some 2) (4, 8)]"

text \<open>
  Player 1 puts a horizontal fence on the edge between (4, 7) and (4, 8), right in
  front of player 2's pawn.
\<close>

definition fence_before_p2 :: "action list" where
  "fence_before_p2 = [Place_fence (Some 1) ''h'' (4, 8)]"

subsection \<open>Invariants of the reachable states\<close>

definition reserves_ok :: "game \<Rightarrow> bool" where
  "reserves_ok s \<longleftrightarrow> 0 \<le> p1_fence_count s \<and> 0 \<le> p2_fence_count s"

definition turn_ok :: "game \<Rightarrow> bool" where
  "turn_ok s \<longleftrightarrow> current_player s = 1 \<or> current_player s = 2"

text \<open>
  The board keeps its 10 x 10 shape; pawns stand on the 9 x 9 playable cells only;
  the vertical fences the constructor put into column 9 stay; and no two cells hold
  the pawn of the same player.
\<close>

definition shape :: "cell list list \<Rightarrow> bool" where
  "shape b \<longleftrightarrow> length b = 10 \<and> (\<forall>row \<in> set b. length row = 10)"

definition on_board :: "int \<times> int \<Rightarrow> bool" where
  "on_board pos \<longleftrightarrow> 0 \<le> fst pos \<and> fst pos \<le> 8 \<and> 0 \<le> snd pos \<and> snd pos \<le> 8"

definition board_ok :: "game \<Rightarrow> bool" where
  "board_ok s \<longleftrightarrow>
     shape (board s)
     \<and> (\<forall>x. pawn_at s x \<noteq> None \<longrightarrow> on_board x)
     \<and> (\<forall>r. 0 \<le> r \<and> r \<le> 8 \<longrightarrow> vfence (cell_of s (9, r)) \<noteq> None)
     \<and> (\<forall>x y. pawn_at s x \<noteq> None \<and> pawn_at s x = pawn_at s y \<longrightarrow> x = y)"

section \<open>Properties\<close>

subsection \<open>Construction returns\<close>

lemma constructor_returns: "QuoridorGame_init = Inr new_game"
  unfolding new_game_def by code_simp

lemma new_game_board:
  "board new_game = map (\<lambda>row. map (start_cell row) [0..<10]) [0..<10]"
  by code_simp

lemma new_game_cell:
  "row < 10 \<Longrightarrow> column < 10 \<Longrightarrow> board new_game ! row ! column = start_cell row column"
  by (simp add: new_game_board)

subsection \<open>What one call can do\<close>

lemma move_pawn_cases:
  "move_pawn s player coord = (Inr (RetBool False), s)
   \<or> move_pawn s player coord = (Inl IndexError, s)
   \<or> (player = Some (current_player s) \<and> winner s = None
       \<and> 0 \<le> snd coord \<and> snd coord \<le> 8 \<and> 0 \<le> fst coord
       \<and> (\<exists>prev. move_pawn s player coord = move_pawn_success s player prev coord))"
proof (cases "snd coord < 0 \<or> snd coord > 8 \<or> fst coord < 0 \<or> winner s \<noteq> None
    \<or> player \<noteq> Some (current_player s)")
  case True
  then show ?thesis by (auto simp add: move_pawn_def Let_def)
next
  case False
  then show ?thesis
    unfolding move_pawn_def Let_def
    by (simp split: option.split bool.split) blast
qed

lemma move_pawn_success_counts:
  "p1_fence_count (snd (move_pawn_success s player prev cur)) = p1_fence_count s
   \<and> p2_fence_count (snd (move_pawn_success s player prev cur)) = p2_fence_count s"
  by (simp add: move_pawn_success_def Let_def split: option.split)

lemma move_pawn_counts:
  "p1_fence_count (snd (move_pawn s player coord)) = p1_fence_count s
   \<and> p2_fence_count (snd (move_pawn s player coord)) = p2_fence_count s"
  using move_pawn_cases [of s player coord] move_pawn_success_counts [of s player _ coord]
  by auto

lemma place_fence_cases:
  "place_fence s player orient coord = (Inr (RetBool False), s)
   \<or> place_fence s player orient coord = (Inl IndexError, s)
   \<or> (winner s = None \<and> (player = None \<or> player = Some (current_player s))
       \<and> \<not> (player = Some 1 \<and> p1_fence_count s = 0)
       \<and> \<not> (player = Some 2 \<and> p2_fence_count s = 0)
       \<and> (\<exists>b. ((hfence_free s (snd coord) (fst coord) = Some True
                  \<and> board_set (board s) (snd coord) (fst coord)
                        (\<lambda>x. x\<lparr>hfence := Some (Fence orient)\<rparr>) = Some b)
                \<or> (vfence_free s (snd coord) (fst coord) = Some True
                  \<and> board_set (board s) (snd coord) (fst coord)
                        (\<lambda>x. x\<lparr>vfence := Some (Fence orient)\<rparr>) = Some b))
              \<and> place_fence s player orient coord = fence_placed_success (s\<lparr>board := b\<rparr>) player))"
proof (cases "snd coord < 0 \<or> snd coord > 8 \<or> fst coord < 0 \<or> winner s \<noteq> None
    \<or> (player \<noteq> None \<and> player \<noteq> Some (current_player s))
    \<or> (player = Some 1 \<and> p1_fence_count s = 0) \<or> (player = Some 2 \<and> p2_fence_count s = 0)")
  case True
  then show ?thesis by (auto simp add: place_fence_def Let_def)
next
  case False
  then show ?thesis
    unfolding place_fence_def Let_def py_and_def
    by (simp split: option.split bool.split) blast
qed

lemma fence_placed_success_fst:
  "fst (fence_placed_success s player) = (if player = None then Inr RetNone else Inr (RetBool True))"
  by (simp add: fence_placed_success_def Let_def)

lemma fence_placed_success_p1:
  "p1_fence_count (snd (fence_placed_success s player)) =
     (if player = Some 1 then p1_fence_count s - 1 else p1_fence_count s)"
  by (simp add: fence_placed_success_def Let_def)

lemma fence_placed_success_p2:
  "p2_fence_count (snd (fence_placed_success s player)) =
     (if player = Some 2 then p2_fence_count s - 1 else p2_fence_count s)"
  by (simp add: fence_placed_success_def Let_def)

lemma fence_placed_success_board:
  "board (snd (fence_placed_success s player)) = board s"
  by (simp add: fence_placed_success_def Let_def)

lemma fence_placed_success_winner:
  "winner (snd (fence_placed_success s player)) = winner s"
  by (simp add: fence_placed_success_def Let_def)

lemma fence_placed_success_turn:
  "current_player (snd (fence_placed_success s player)) =
     (if player = Some 1 then 2 else if player = Some 2 then 1 else current_player s)"
  by (simp add: fence_placed_success_def Let_def)

lemma place_fence_p1:
  "p1_fence_count (snd (place_fence s player orient coord)) =
     (if player = Some 1 \<and> fst (place_fence s player orient coord) = Inr (RetBool True)
      then p1_fence_count s - 1 else p1_fence_count s)"
  using place_fence_cases [of s player orient coord]
  by (auto simp add: fence_placed_success_fst fence_placed_success_p1 split: if_splits)

lemma place_fence_p2:
  "p2_fence_count (snd (place_fence s player orient coord)) =
     (if player = Some 2 \<and> fst (place_fence s player orient coord) = Inr (RetBool True)
      then p2_fence_count s - 1 else p2_fence_count s)"
  using place_fence_cases [of s player orient coord]
  by (auto simp add: fence_placed_success_fst fence_placed_success_p2 split: if_splits)

lemma place_fence_empty_reserve:
  "(p1_fence_count s = 0 \<longrightarrow> place_fence s (Some 1) orient coord = (Inr (RetBool False), s))
   \<and> (p2_fence_count s = 0 \<longrightarrow> place_fence s (Some 2) orient coord = (Inr (RetBool False), s))"
  by (simp add: place_fence_def Let_def)

lemma place_fence_success_reserve:
  "fst (place_fence s player orient coord) = Inr (RetBool True) \<Longrightarrow>
     (player = Some 1 \<longrightarrow> p1_fence_count s \<noteq> 0) \<and> (player = Some 2 \<longrightarrow> p2_fence_count s \<noteq> 0)"
  using place_fence_cases [of s player orient coord] by (auto simp add: fence_placed_success_fst split: if_splits)

lemma call_p1:
  "p1_fence_count (snd (call s a)) =
     (if is_placement_by a 1 \<and> fst (call s a) = Inr (RetBool True)
      then p1_fence_count s - 1 else p1_fence_count s)"
  by (cases a) (simp_all add: move_pawn_counts place_fence_p1)

lemma call_p2:
  "p2_fence_count (snd (call s a)) =
     (if is_placement_by a 2 \<and> fst (call s a) = Inr (RetBool True)
      then p2_fence_count s - 1 else p2_fence_count s)"
  by (cases a) (simp_all add: move_pawn_counts place_fence_p2)

lemma call_success_reserve:
  "fst (call s a) = Inr (RetBool True) \<Longrightarrow>
     (is_placement_by a 1 \<longrightarrow> p1_fence_count s \<noteq> 0) \<and> (is_placement_by a 2 \<longrightarrow> p2_fence_count s \<noteq> 0)"
  using place_fence_success_reserve by (cases a) auto

lemma call_reserves_ok: "reserves_ok s \<Longrightarrow> reserves_ok (snd (call s a))"
  using call_success_reserve [of s a]
  by (auto simp add: reserves_ok_def call_p1 call_p2)

lemma run_reserves_ok: "reserves_ok s \<Longrightarrow> reserves_ok (run s as)"
  by (induction as arbitrary: s) (simp_all add: call_reserves_ok)

lemma run_p1:
  "p1_fence_count (run s as) = p1_fence_count s - int (successful_placements s as 1)"
  by (induction as arbitrary: s) (simp_all add: call_p1)

lemma run_p2:
  "p2_fence_count (run s as) = p2_fence_count s - int (successful_placements s as 2)"
  by (induction as arbitrary: s) (simp_all add: call_p2)

lemma new_game_scalars:
  "p1_fence_count new_game = 10" "p2_fence_count new_game = 10"
  "current_player new_game = 1" "winner new_game = None"
  by code_simp+

lemma new_game_reserves_ok: "reserves_ok new_game"
  by (simp add: reserves_ok_def new_game_scalars)

text \<open>
  Claim C7.  Both reserves start at 10.  In every state reached from the new game
  they are non-negative; a call lowers a player's reserve by exactly 1 when it is a
  placement by that player that returned \<^verbatim>\<open>True\<close> and leaves it as it is
  otherwise, so a reserve never grows and always is 10 minus the number of that
  player's successful placements; and with a reserve of 0 the player's next
  placement returns \<^verbatim>\<open>False\<close> and changes nothing.
\<close>

theorem fence_reserve:
  "p1_fence_count new_game = 10 \<and> p2_fence_count new_game = 10
   \<and> 0 \<le> p1_fence_count (run new_game as) \<and> 0 \<le> p2_fence_count (run new_game as)
   \<and> p1_fence_count (snd (call (run new_game as) a)) =
       (if is_placement_by a 1 \<and> fst (call (run new_game as) a) = Inr (RetBool True)
        then p1_fence_count (run new_game as) - 1 else p1_fence_count (run new_game as))
   \<and> p2_fence_count (snd (call (run new_game as) a)) =
       (if is_placement_by a 2 \<and> fst (call (run new_game as) a) = Inr (RetBool True)
        then p2_fence_count (run new_game as) - 1 else p2_fence_count (run new_game as))
   \<and> p1_fence_count (snd (call (run new_game as) a)) \<le> p1_fence_count (run new_game as)
   \<and> p2_fence_count (snd (call (run new_game as) a)) \<le> p2_fence_count (run new_game as)
   \<and> p1_fence_count (run new_game as) = 10 - int (successful_placements new_game as 1)
   \<and> p2_fence_count (run new_game as) = 10 - int (successful_placements new_game as 2)
   \<and> (p1_fence_count (run new_game as) = 0 \<longrightarrow>
        place_fence (run new_game as) (Some 1) orient coord = (Inr (RetBool False), run new_game as))
   \<and> (p2_fence_count (run new_game as) = 0 \<longrightarrow>
        place_fence (run new_game as) (Some 2) orient coord = (Inr (RetBool False), run new_game as))"
proof -
  have ok: "reserves_ok (run new_game as)"
    by (rule run_reserves_ok [OF new_game_reserves_ok])
  show ?thesis
    using ok place_fence_empty_reserve [of "run new_game as" orient coord]
      run_p1 [of new_game as] run_p2 [of new_game as]
    by (simp add: reserves_ok_def new_game_scalars call_p1 call_p2)
qed

theorem fence_reserve_witness:
  "p1_fence_count (run new_game p1_spends_reserve) = 0
   \<and> successful_placements new_game p1_spends_reserve 1 = 10
   \<and> place_fence (run new_game p1_spends_reserve) (Some 1) ''h'' (5, 5)
       = (Inr (RetBool False), run new_game p1_spends_reserve)
   \<and> p1_fence_count (snd (call (run new_game p1_spends_reserve) (Place_fence (Some 1) ''h'' (5, 5)))) = 0"
proof -
  have h: "p1_fence_count (run new_game p1_spends_reserve) = 0" by code_simp
  have n: "successful_placements new_game p1_spends_reserve 1 = 10" by code_simp
  show ?thesis
    using h n
      fence_reserve [of p1_spends_reserve "Place_fence (Some 1) ''h'' (5, 5)" "''h''" "(5, 5)"]
    by simp
qed

subsection \<open>Turns\<close>

lemma board_set_length:
  "board_set b i j f = Some b' \<Longrightarrow> length b' = length b"
  by (auto simp add: board_set_def split: option.splits)

lemma move_pawn_success_turn:
  "turn_ok s \<Longrightarrow> player = Some (current_player s) \<Longrightarrow>
     (fst (move_pawn_success s player prev cur) = Inr (RetBool True)
        \<longrightarrow> current_player (snd (move_pawn_success s player prev cur)) = 3 - current_player s)
     \<and> (fst (move_pawn_success s player prev cur) \<noteq> Inr (RetBool True)
        \<longrightarrow> current_player (snd (move_pawn_success s player prev cur)) = current_player s)"
  by (auto simp add: move_pawn_success_def Let_def turn_ok_def split: option.split)

lemma move_pawn_turn:
  "turn_ok s \<Longrightarrow>
     (fst (move_pawn s player coord) = Inr (RetBool True)
        \<longrightarrow> player = Some (current_player s)
          \<and> current_player (snd (move_pawn s player coord)) = 3 - current_player s)
     \<and> (fst (move_pawn s player coord) \<noteq> Inr (RetBool True)
        \<longrightarrow> current_player (snd (move_pawn s player coord)) = current_player s)"
  using move_pawn_cases [of s player coord] move_pawn_success_turn [of s player _ coord]
  by auto

lemma place_fence_turn:
  "turn_ok s \<Longrightarrow>
     (fst (place_fence s player orient coord) = Inr (RetBool True)
        \<longrightarrow> player = Some (current_player s)
          \<and> current_player (snd (place_fence s player orient coord)) = 3 - current_player s)
     \<and> (fst (place_fence s player orient coord) \<noteq> Inr (RetBool True)
        \<longrightarrow> current_player (snd (place_fence s player orient coord)) = current_player s)"
  using place_fence_cases [of s player orient coord]
  by (auto simp add: fence_placed_success_fst fence_placed_success_turn turn_ok_def
      split: if_splits)

lemma call_turn:
  "turn_ok s \<Longrightarrow>
     (fst (call s a) = Inr (RetBool True)
        \<longrightarrow> actor a = Some (current_player s)
          \<and> current_player (snd (call s a)) = 3 - current_player s)
     \<and> (fst (call s a) \<noteq> Inr (RetBool True)
        \<longrightarrow> current_player (snd (call s a)) = current_player s)"
  using move_pawn_turn place_fence_turn by (cases a) simp_all

lemma call_turn_ok: "turn_ok s \<Longrightarrow> turn_ok (snd (call s a))"
  using call_turn [of s a] by (auto simp add: turn_ok_def)

lemma run_turn_ok: "turn_ok s \<Longrightarrow> turn_ok (run s as)"
  by (induction as arbitrary: s) (simp_all add: call_turn_ok)

lemma successful_players_alternate:
  "turn_ok s \<Longrightarrow> alternates (current_player s) (successful_players s as)"
proof (induction as arbitrary: s)
  case Nil
  then show ?case by simp
next
  case (Cons a as)
  have ok: "turn_ok (snd (call s a))" by (rule call_turn_ok [OF Cons.prems])
  show ?case
  proof (cases "fst (call s a) = Inr (RetBool True)")
    case True
    with call_turn [OF Cons.prems, of a]
    have "actor a = Some (current_player s)"
      and "current_player (snd (call s a)) = 3 - current_player s" by auto
    with Cons.IH [OF ok] True show ?thesis by simp
  next
    case False
    with call_turn [OF Cons.prems, of a]
    have "current_player (snd (call s a)) = current_player s" by auto
    with Cons.IH [OF ok] False show ?thesis by simp
  qed
qed

lemma out_of_turn_move:
  "player \<noteq> Some (current_player s) \<Longrightarrow> move_pawn s player coord = (Inr (RetBool False), s)"
  by (simp add: move_pawn_def Let_def)

lemma out_of_turn_placement:
  "player \<noteq> None \<Longrightarrow> player \<noteq> Some (current_player s) \<Longrightarrow>
     place_fence s player orient coord = (Inr (RetBool False), s)"
  by (simp add: place_fence_def Let_def)

lemma new_game_turn_ok: "turn_ok new_game"
  by (simp add: turn_ok_def new_game_scalars)

text \<open>
  Claim C8.  In every state reached from the new game the current player is 1 or 2.
  A call that returns \<^verbatim>\<open>True\<close> was made by the current player and hands the turn
  to the other one; every other call leaves the turn as it is.  A move by anyone
  but the current player, and a placement by a non-null player other than the
  current one, return \<^verbatim>\<open>False\<close> and change nothing.  So the players of the
  successful calls of a game alternate 1, 2, 1, ...
\<close>

theorem turns_alternate:
  "(current_player (run new_game as) = 1 \<or> current_player (run new_game as) = 2)
   \<and> (fst (call (run new_game as) a) = Inr (RetBool True) \<longrightarrow>
        actor a = Some (current_player (run new_game as))
        \<and> current_player (snd (call (run new_game as) a)) = 3 - current_player (run new_game as))
   \<and> (fst (call (run new_game as) a) \<noteq> Inr (RetBool True) \<longrightarrow>
        current_player (snd (call (run new_game as) a)) = current_player (run new_game as))
   \<and> (player \<noteq> Some (current_player (run new_game as)) \<longrightarrow>
        move_pawn (run new_game as) player coord = (Inr (RetBool False), run new_game as))
   \<and> (player \<noteq> None \<and> player \<noteq> Some (current_player (run new_game as)) \<longrightarrow>
        place_fence (run new_game as) player orient coord = (Inr (RetBool False), run new_game as))
   \<and> alternates 1 (successful_players new_game as)"
proof -
  have ok: "turn_ok (run new_game as)"
    by (rule run_turn_ok [OF new_game_turn_ok])
  have alt: "alternates 1 (successful_players new_game as)"
    using successful_players_alternate [OF new_game_turn_ok, of as]
    by (simp add: new_game_scalars)
  show ?thesis
    using ok call_turn [OF ok, of a] alt
    by (simp add: turn_ok_def out_of_turn_move out_of_turn_placement)
qed

theorem turns_alternate_witness:
  "fst (call (run new_game [Move_pawn (Some 1) (4, 1)]) (Move_pawn (Some 2) (4, 7))) = Inr (RetBool True)
   \<and> current_player (run new_game [Move_pawn (Some 1) (4, 1)]) = 2
   \<and> current_player (snd (call (run new_game [Move_pawn (Some 1) (4, 1)]) (Move_pawn (Some 2) (4, 7)))) = 1
   \<and> move_pawn (run new_game [Move_pawn (Some 1) (4, 1)]) (Some 1) (4, 2)
       = (Inr (RetBool False), run new_game [Move_pawn (Some 1) (4, 1)])
   \<and> place_fence (run new_game [Move_pawn (Some 1) (4, 1)]) (Some 1) ''v'' (4, 2)
       = (Inr (RetBool False), run new_game [Move_pawn (Some 1) (4, 1)])"
proof -
  have t: "fst (call (run new_game [Move_pawn (Some 1) (4, 1)]) (Move_pawn (Some 2) (4, 7)))
      = Inr (RetBool True)" by code_simp
  have c: "current_player (run new_game [Move_pawn (Some 1) (4, 1)]) = 2" by code_simp
  show ?thesis
    using t c
      turns_alternate [of "[Move_pawn (Some 1) (4, 1)]" "Move_pawn (Some 2) (4, 7)"
        "Some 1" "(4, 2)" "''v''"]
    by simp
qed

subsection \<open>What a stored fence returns\<close>

lemma py_index_less: "py_index n i = Some k \<Longrightarrow> k < n"
  by (auto simp add: py_index_def split: if_splits)

lemma board_set_changes:
  assumes get: "board_get b i j = Some x" and set: "board_set b i j f = Some b'" and neq: "f x \<noteq> x"
  shows "b' \<noteq> b"
proof -
  from get obtain r c where r: "py_index (length b) i = Some r"
    and c: "py_index (length (b ! r)) j = Some c" and x: "x = b ! r ! c"
    by (auto simp add: board_get_def split: option.splits)
  from set r c have b': "b' = b[r := (b ! r)[c := f x]]"
    by (simp add: board_set_def x)
  have rl: "r < length b" and cl: "c < length (b ! r)"
    using r c py_index_less by blast+
  have "b' ! r ! c = f x" using rl cl by (simp add: b')
  with neq x show ?thesis by auto
qed

lemma place_fence_stores_iff:
  "board (snd (place_fence s player orient coord)) \<noteq> board s
   \<longleftrightarrow> fst (place_fence s player orient coord) = (if player = None then Inr RetNone else Inr (RetBool True))"
proof -
  have h: "hfence_free s i j = Some True \<Longrightarrow>
      board_set (board s) i j (\<lambda>x. x\<lparr>hfence := Some (Fence orient)\<rparr>) = Some b \<Longrightarrow> b \<noteq> board s" for i j b
  proof -
    assume free: "hfence_free s i j = Some True"
      and set: "board_set (board s) i j (\<lambda>x. x\<lparr>hfence := Some (Fence orient)\<rparr>) = Some b"
    from free obtain x where get: "board_get (board s) i j = Some x" and none: "hfence x = None"
      by (auto simp add: hfence_free_def)
    from none have "hfence (x\<lparr>hfence := Some (Fence orient)\<rparr>) \<noteq> hfence x" by simp
    then have "x\<lparr>hfence := Some (Fence orient)\<rparr> \<noteq> x" by force
    then show "b \<noteq> board s" by (rule board_set_changes [OF get set])
  qed
  have v: "vfence_free s i j = Some True \<Longrightarrow>
      board_set (board s) i j (\<lambda>x. x\<lparr>vfence := Some (Fence orient)\<rparr>) = Some b \<Longrightarrow> b \<noteq> board s" for i j b
  proof -
    assume free: "vfence_free s i j = Some True"
      and set: "board_set (board s) i j (\<lambda>x. x\<lparr>vfence := Some (Fence orient)\<rparr>) = Some b"
    from free obtain x where get: "board_get (board s) i j = Some x" and none: "vfence x = None"
      by (auto simp add: vfence_free_def)
    from none have "vfence (x\<lparr>vfence := Some (Fence orient)\<rparr>) \<noteq> vfence x" by simp
    then have "x\<lparr>vfence := Some (Fence orient)\<rparr> \<noteq> x" by force
    then show "b \<noteq> board s" by (rule board_set_changes [OF get set])
  qed
  show ?thesis
    using place_fence_cases [of s player orient coord] h v
    by (auto simp add: fence_placed_success_fst fence_placed_success_board split: if_splits)
qed

text \<open>
  Claim C5, as the code has it.  A \<^verbatim>\<open>place_fence\<close> call that stores a fence (that
  changes the board) returns \<^verbatim>\<open>True\<close> when it was made for a player, and
  returns \<^verbatim>\<open>None\<close> when it was made with the null player, as the calls of the
  constructor are.
\<close>

theorem stored_fence_result:
  assumes "board (snd (place_fence s player orient coord)) \<noteq> board s"
  shows "fst (place_fence s player orient coord)
    = (if player = None then Inr RetNone else Inr (RetBool True))"
  using assms by (simp only: place_fence_stores_iff)

theorem stored_fence_result_witness:
  "board (snd (place_fence new_game (Some 1) ''h'' (4, 4))) \<noteq> board new_game
   \<and> fst (place_fence new_game (Some 1) ''h'' (4, 4)) = Inr (RetBool True)"
proof -
  have h: "board (snd (place_fence new_game (Some 1) ''h'' (4, 4))) \<noteq> board new_game"
    by code_simp
  show ?thesis using h stored_fence_result [OF h] by simp
qed

text \<open>
  The claim as it was worded fails for the null player: the call below stores a
  horizontal fence at (4, 4) and does not return \<^verbatim>\<open>True\<close>.
\<close>

theorem null_player_fence_counterexample:
  "hfence (cell_of new_game (4, 4)) = None
   \<and> hfence (cell_of (snd (place_fence new_game None ''h'' (4, 4))) (4, 4)) = Some (Fence ''h'')
   \<and> fst (place_fence new_game None ''h'' (4, 4)) \<noteq> Inr (RetBool True)"
  by code_simp

subsection \<open>Reading and writing a well-shaped board\<close>

lemma shape_nth: "shape b \<Longrightarrow> i < 10 \<Longrightarrow> length (b ! i) = 10"
  by (simp add: shape_def)

lemma py_index_10:
  "py_index 10 i =
     (if 0 \<le> i \<and> i \<le> 9 then Some (nat i)
      else if - 10 \<le> i \<and> i < 0 then Some (nat (10 + i)) else None)"
  by (auto simp add: py_index_def)

lemma board_get_in:
  "shape b \<Longrightarrow> 0 \<le> i \<Longrightarrow> i \<le> 9 \<Longrightarrow> 0 \<le> j \<Longrightarrow> j \<le> 9 \<Longrightarrow>
     board_get b i j = Some (board_cell b (j, i))"
  by (simp add: board_get_def shape_def py_index_10 board_cell_def)

lemma board_get_row_wrap:
  "shape b \<Longrightarrow> 0 \<le> j \<Longrightarrow> j \<le> 9 \<Longrightarrow> board_get b (- 1) j = Some (board_cell b (j, 9))"
  by (simp add: board_get_def shape_def py_index_10 board_cell_def)

lemma board_get_column_wrap:
  "shape b \<Longrightarrow> 0 \<le> i \<Longrightarrow> i \<le> 9 \<Longrightarrow> board_get b i (- 1) = Some (board_cell b (9, i))"
  by (simp add: board_get_def shape_def py_index_10 board_cell_def)

lemma board_get_column_out:
  "shape b \<Longrightarrow> - 1 \<le> i \<Longrightarrow> i \<le> 9 \<Longrightarrow> 10 \<le> j \<Longrightarrow> board_get b i j = None"
  by (auto simp add: board_get_def shape_def py_index_10 split: option.splits if_splits)

lemma board_set_in:
  assumes "shape b" "0 \<le> i" "i \<le> 9" "0 \<le> j" "j \<le> 9"
  shows "\<exists>b'. board_set b i j f = Some b' \<and> shape b'
           \<and> (\<forall>x. board_cell b' x = (if x = (j, i) then f (board_cell b x) else board_cell b x))"
proof -
  let ?b' = "b[nat i := (b ! nat i)[nat j := f (b ! nat i ! nat j)]]"
  have set: "board_set b i j f = Some ?b'"
    using assms by (simp add: board_set_def shape_def py_index_10)
  have sh: "shape ?b'"
    using assms by (auto simp add: shape_def dest!: set_update_subset_insert [THEN subsetD])
  have cells: "board_cell ?b' x = (if x = (j, i) then f (board_cell b x) else board_cell b x)" for x
  proof (cases "0 \<le> fst x \<and> fst x \<le> 9 \<and> 0 \<le> snd x \<and> snd x \<le> 9")
    case True
    then show ?thesis
      using assms
      by (cases x) (auto simp add: board_cell_def shape_def nth_list_update)
  next
    case False
    then show ?thesis using assms by (cases x) (auto simp add: board_cell_def)
  qed
  show ?thesis using set sh cells by blast
qed

lemma py_and_Some: "py_and (Some a) (Some b) = Some (a \<and> b)"
  by (cases a) (simp_all add: py_and_def)

lemma py_and_None: "py_and None b = None"
  by (simp add: py_and_def)

lemma py_and_False: "py_and (Some False) b = Some False"
  by (simp add: py_and_def)

lemma pawn_at_outside:
  "\<not> (0 \<le> fst x \<and> fst x \<le> 9 \<and> 0 \<le> snd x \<and> snd x \<le> 9) \<Longrightarrow> pawn_at s x = None"
  by (auto simp add: pawn_at_def cell_of_def board_cell_def empty_cell_def)

lemma board_ok_shape: "board_ok s \<Longrightarrow> shape (board s)"
  by (simp add: board_ok_def)

lemma board_ok_no_pawn: "board_ok s \<Longrightarrow> \<not> on_board x \<Longrightarrow> pawn_at s x = None"
  unfolding board_ok_def by blast

lemma pawn_is_in:
  "shape (board s) \<Longrightarrow> 0 \<le> i \<Longrightarrow> i \<le> 9 \<Longrightarrow> 0 \<le> j \<Longrightarrow> j \<le> 9 \<Longrightarrow>
     pawn_is s i j player = Some (pawn_at s (j, i) = player)"
  by (simp add: pawn_is_def board_get_in pawn_at_def cell_of_def)

lemma hfence_free_in:
  "shape (board s) \<Longrightarrow> 0 \<le> i \<Longrightarrow> i \<le> 9 \<Longrightarrow> 0 \<le> j \<Longrightarrow> j \<le> 9 \<Longrightarrow>
     hfence_free s i j = Some (hfence (cell_of s (j, i)) = None)"
  by (simp add: hfence_free_def board_get_in cell_of_def)

lemma vfence_free_in:
  "shape (board s) \<Longrightarrow> 0 \<le> i \<Longrightarrow> i \<le> 9 \<Longrightarrow> 0 \<le> j \<Longrightarrow> j \<le> 9 \<Longrightarrow>
     vfence_free s i j = Some (vfence (cell_of s (j, i)) = None)"
  by (simp add: vfence_free_def board_get_in cell_of_def)

lemma pawn_is_near:
  assumes ok: "board_ok s" and p: "player = Some p"
    and i: "- 1 \<le> i" "i \<le> 9" and j: "0 \<le> j" "j \<le> 9"
  shows "pawn_is s i j player = Some (pawn_at s (j, i) = player)"
proof (cases "i = - 1")
  case True
  have "pawn_at s (j, 9) = None"
    by (rule board_ok_no_pawn [OF ok]) (simp add: on_board_def)
  moreover have "pawn_at s (j, - 1) = None"
    by (rule pawn_at_outside) simp
  ultimately show ?thesis
    using True p j board_ok_shape [OF ok]
    by (simp add: pawn_is_def board_get_row_wrap pawn_at_def cell_of_def)
next
  case False
  with i have "0 \<le> i" by simp
  then show ?thesis using i j board_ok_shape [OF ok] by (simp add: pawn_is_in)
qed

lemma pawn_is_left:
  assumes ok: "board_ok s" and p: "player = Some p"
    and i: "0 \<le> i" "i \<le> 9" and j: "- 1 \<le> j" "j \<le> 9"
  shows "pawn_is s i j player = Some (pawn_at s (j, i) = player)"
proof (cases "j = - 1")
  case True
  have "pawn_at s (9, i) = None"
    by (rule board_ok_no_pawn [OF ok]) (simp add: on_board_def)
  moreover have "pawn_at s (- 1, i) = None"
    by (rule pawn_at_outside) simp
  ultimately show ?thesis
    using True p i board_ok_shape [OF ok]
    by (simp add: pawn_is_def board_get_column_wrap pawn_at_def cell_of_def)
next
  case False
  with j have "0 \<le> j" by simp
  then show ?thesis using i j board_ok_shape [OF ok] by (simp add: pawn_is_in)
qed

lemma move_pawn_success_effect:
  assumes sh: "shape (board s)"
    and cur: "0 \<le> fst cur" "fst cur \<le> 9" "0 \<le> snd cur" "snd cur \<le> 9"
    and prev: "0 \<le> fst prev" "fst prev \<le> 9" "0 \<le> snd prev" "snd prev \<le> 9"
  shows "\<exists>s'. move_pawn_success s player prev cur = (Inr (RetBool True), s') \<and> shape (board s')
           \<and> (\<forall>x. cell_of s' x =
                 (if x = prev then (cell_of s x)\<lparr>pawn := None\<rparr>
                  else if x = cur then (cell_of s x)\<lparr>pawn := player\<rparr> else cell_of s x))"
proof -
  from board_set_in [OF sh cur(3,4) cur(1,2), of "\<lambda>x. x\<lparr>pawn := player\<rparr>"]
  obtain b1 where b1: "board_set (board s) (snd cur) (fst cur) (\<lambda>x. x\<lparr>pawn := player\<rparr>) = Some b1"
    and sh1: "shape b1"
    and c1: "\<And>x. board_cell b1 x =
        (if x = cur then (board_cell (board s) x)\<lparr>pawn := player\<rparr> else board_cell (board s) x)"
    by auto
  from board_set_in [OF sh1 prev(3,4) prev(1,2), of "\<lambda>x. x\<lparr>pawn := None\<rparr>"]
  obtain b2 where b2: "board_set b1 (snd prev) (fst prev) (\<lambda>x. x\<lparr>pawn := None\<rparr>) = Some b2"
    and sh2: "shape b2"
    and c2: "\<And>x. board_cell b2 x =
        (if x = prev then (board_cell b1 x)\<lparr>pawn := None\<rparr> else board_cell b1 x)"
    by auto
  have cells: "board_cell b2 x =
      (if x = prev then (board_cell (board s) x)\<lparr>pawn := None\<rparr>
       else if x = cur then (board_cell (board s) x)\<lparr>pawn := player\<rparr> else board_cell (board s) x)" for x
    by (simp add: c1 c2)
  show ?thesis
    using b1 b2 sh2 cells
    by (simp add: move_pawn_success_def Let_def cell_of_def)
qed

subsection \<open>A move onto the playable board\<close>

lemma case_Some_bool:
  "(case Some b of None \<Rightarrow> x | Some True \<Rightarrow> y | Some False \<Rightarrow> z) = (if b then y else z)"
  by (cases b) simp_all

lemma legal_move_unfold:
  "legal_move s player (c, r) \<longleftrightarrow>
     (pawn_at s (c, r - 1) = player \<and> hfence (cell_of s (c, r)) = None)
     \<or> (pawn_at s (c, r + 1) = player \<and> hfence (cell_of s (c, r + 1)) = None)
     \<or> (pawn_at s (c - 1, r) = player \<and> vfence (cell_of s (c, r)) = None)
     \<or> (pawn_at s (c + 1, r) = player \<and> vfence (cell_of s (c + 1, r)) = None)"
  by (simp add: legal_move_def orthogonal_neighbours_def edge_fence_def max_def)

lemma move_pawn_on_board:
  assumes ok: "board_ok s" and t: "on_board (c, r)"
    and w: "winner s = None" and p: "player = Some (current_player s)"
  shows "move_pawn s player (c, r) =
     (if pawn_at s (c, r - 1) = player \<and> hfence (cell_of s (c, r)) = None
      then move_pawn_success s player (c, r - 1) (c, r)
      else if pawn_at s (c, r + 1) = player \<and> hfence (cell_of s (c, r + 1)) = None
      then move_pawn_success s player (c, r + 1) (c, r)
      else if pawn_at s (c - 1, r) = player \<and> vfence (cell_of s (c, r)) = None
      then move_pawn_success s player (c - 1, r) (c, r)
      else if pawn_at s (c + 1, r) = player \<and> vfence (cell_of s (c + 1, r)) = None
      then move_pawn_success s player (c + 1, r) (c, r)
      else (Inr (RetBool False), s))"
proof -
  note sh = board_ok_shape [OF ok]
  from t have b: "0 \<le> c" "c \<le> 8" "0 \<le> r" "r \<le> 8" by (simp_all add: on_board_def)
  have 1: "py_and (pawn_is s (r - 1) c player) (hfence_free s r c)
      = Some (pawn_at s (c, r - 1) = player \<and> hfence (cell_of s (c, r)) = None)"
    using b by (simp add: pawn_is_near [OF ok p] hfence_free_in [OF sh] py_and_Some)
  have 2: "py_and (pawn_is s (r + 1) c player) (hfence_free s (r + 1) c)
      = Some (pawn_at s (c, r + 1) = player \<and> hfence (cell_of s (c, r + 1)) = None)"
    using b by (simp add: pawn_is_near [OF ok p] hfence_free_in [OF sh] py_and_Some)
  have 3: "py_and (pawn_is s r (c - 1) player) (vfence_free s r c)
      = Some (pawn_at s (c - 1, r) = player \<and> vfence (cell_of s (c, r)) = None)"
    using b by (simp add: pawn_is_left [OF ok p] vfence_free_in [OF sh] py_and_Some)
  have 4: "py_and (pawn_is s r (c + 1) player) (vfence_free s r (c + 1))
      = Some (pawn_at s (c + 1, r) = player \<and> vfence (cell_of s (c + 1, r)) = None)"
    using b by (simp add: pawn_is_left [OF ok p] vfence_free_in [OF sh] py_and_Some)
  have g: "\<not> (r < 0 \<or> r > 8 \<or> c < 0 \<or> r > 8 \<or> winner s \<noteq> None
      \<or> player \<noteq> Some (current_player s))"
    using b w p by simp
  show ?thesis
    unfolding move_pawn_def Let_def fst_conv snd_conv 1 2 3 4 case_Some_bool if_not_P [OF g]
    by (rule refl)
qed

lemma pawn_on_board:
  "board_ok s \<Longrightarrow> pawn_at s x = Some p \<Longrightarrow> on_board x"
  unfolding board_ok_def by blast

lemma move_pawn_success_fst:
  assumes ok: "board_ok s" and t: "on_board cur" and src: "pawn_at s prev = Some p"
  shows "fst (move_pawn_success s player prev cur) = Inr (RetBool True)"
proof -
  from pawn_on_board [OF ok src] have "on_board prev" .
  with t move_pawn_success_effect [OF board_ok_shape [OF ok], of cur prev player]
  show ?thesis by (auto simp add: on_board_def)
qed

lemma move_pawn_result:
  assumes ok: "board_ok s" and t: "on_board (c, r)"
    and w: "winner s = None" and p: "player = Some (current_player s)"
  shows "fst (move_pawn s player (c, r)) = Inr (RetBool (legal_move s player (c, r)))"
  unfolding move_pawn_on_board [OF ok t w p] legal_move_unfold
  using move_pawn_success_fst [OF ok t, of _ "current_player s" player] p
  by auto

subsection \<open>The board invariant is kept\<close>

lemma move_pawn_success_board_ok:
  assumes ok: "board_ok s" and t: "on_board cur" and src: "pawn_at s prev = player"
    and p: "player = Some p" and ne: "prev \<noteq> cur"
  shows "board_ok (snd (move_pawn_success s player prev cur))"
proof -
  from src p pawn_on_board [OF ok] have "on_board prev" by simp
  with t move_pawn_success_effect [OF board_ok_shape [OF ok], of cur prev player]
  obtain s' where res: "move_pawn_success s player prev cur = (Inr (RetBool True), s')"
    and sh: "shape (board s')"
    and cells: "\<And>x. cell_of s' x =
        (if x = prev then (cell_of s x)\<lparr>pawn := None\<rparr>
         else if x = cur then (cell_of s x)\<lparr>pawn := player\<rparr> else cell_of s x)"
    by (auto simp add: on_board_def)
  have pawns: "pawn_at s' x = (if x = prev then None else if x = cur then player else pawn_at s x)" for x
    by (simp add: pawn_at_def cells)
  have fences: "vfence (cell_of s' x) = vfence (cell_of s x)" for x
    by (simp add: cells)
  from ok have on: "\<And>x. pawn_at s x \<noteq> None \<Longrightarrow> on_board x"
    and col: "\<And>r. 0 \<le> r \<Longrightarrow> r \<le> 8 \<Longrightarrow> vfence (cell_of s (9, r)) \<noteq> None"
    and uniq: "\<And>x y. pawn_at s x \<noteq> None \<Longrightarrow> pawn_at s x = pawn_at s y \<Longrightarrow> x = y"
    unfolding board_ok_def by blast+
  have on': "on_board x" if "pawn_at s' x \<noteq> None" for x
    using that t on [of x] by (auto simp add: pawns split: if_splits)
  have uniq': "x = y" if "pawn_at s' x \<noteq> None" and "pawn_at s' x = pawn_at s' y" for x y
  proof -
    from that have nx: "x \<noteq> prev" and ny: "y \<noteq> prev"
      by (auto simp add: pawns split: if_splits)
    show ?thesis
    proof (cases "x = cur")
      case True
      show ?thesis
      proof (cases "y = cur")
        case True
        with \<open>x = cur\<close> show ?thesis by simp
      next
        case False
        with that True nx ny have "pawn_at s y = player" by (simp add: pawns)
        with src p uniq [of y prev] have "y = prev" by simp
        with ny show ?thesis by simp
      qed
    next
      case False
      show ?thesis
      proof (cases "y = cur")
        case True
        with that False nx ny have "pawn_at s x = player" by (simp add: pawns)
        with src p uniq [of x prev] have "x = prev" by simp
        with nx show ?thesis by simp
      next
        case yc: False
        with that False nx ny show ?thesis using uniq [of x y] by (simp add: pawns)
      qed
    qed
  qed
  have a: "\<forall>x. pawn_at s' x \<noteq> None \<longrightarrow> on_board x"
    using on' by blast
  have b: "\<forall>r. 0 \<le> r \<and> r \<le> 8 \<longrightarrow> vfence (cell_of s' (9, r)) \<noteq> None"
    using col by (simp add: fences)
  have c: "\<forall>x y. pawn_at s' x \<noteq> None \<and> pawn_at s' x = pawn_at s' y \<longrightarrow> x = y"
    using uniq' by blast
  have "board_ok s'"
    unfolding board_ok_def using sh a b c by blast
  with res show ?thesis by simp
qed

lemma move_pawn_off_board:
  assumes ok: "board_ok s" and r: "0 \<le> r" "r \<le> 8" and c: "9 \<le> c"
    and w: "winner s = None" and p: "player = Some (current_player s)"
  shows "move_pawn s player (c, r) = (Inl IndexError, s)"
proof -
  note sh = board_ok_shape [OF ok]
  have g: "\<not> (r < 0 \<or> r > 8 \<or> c < 0 \<or> r > 8 \<or> winner s \<noteq> None
      \<or> player \<noteq> Some (current_player s))"
    using r c w p by simp
  show ?thesis
  proof (cases "c = 9")
    case True
    have no: "pawn_at s (9, y) = None" for y
      by (rule board_ok_no_pawn [OF ok]) (simp add: on_board_def)
    have nf: "pawn_is s i 9 player = Some False" if "- 1 \<le> i" "i \<le> 9" for i
      using pawn_is_near [OF ok p that, of 9] no [of i] p by simp
    have 1: "py_and (pawn_is s (r - 1) c player) (hfence_free s r c) = Some False"
      using r True by (simp add: nf py_and_False)
    have 2: "py_and (pawn_is s (r + 1) c player) (hfence_free s (r + 1) c) = Some False"
      using r True by (simp add: nf py_and_False)
    have "vfence (cell_of s (9, r)) \<noteq> None"
      using ok r unfolding board_ok_def by blast
    then have 3: "py_and (pawn_is s r (c - 1) player) (vfence_free s r c) = Some False"
      using r True by (simp add: pawn_is_left [OF ok p] vfence_free_in [OF sh] py_and_Some)
    have 4: "py_and (pawn_is s r (c + 1) player) (vfence_free s r (c + 1)) = None"
      using r True sh by (simp add: pawn_is_def board_get_column_out py_and_None)
    show ?thesis
      unfolding move_pawn_def Let_def fst_conv snd_conv 1 2 3 4 if_not_P [OF g]
      by simp
  next
    case False
    with c have "10 \<le> c" by simp
    then have 1: "py_and (pawn_is s (r - 1) c player) (hfence_free s r c) = None"
      using r sh by (simp add: pawn_is_def board_get_column_out py_and_None)
    show ?thesis
      unfolding move_pawn_def Let_def fst_conv snd_conv 1 if_not_P [OF g]
      by simp
  qed
qed

lemma move_pawn_board_ok:
  assumes ok: "board_ok s"
  shows "board_ok (snd (move_pawn s player coord))"
proof -
  obtain c r where coord: "coord = (c, r)" by (cases coord)
  consider (same) "snd (move_pawn s player coord) = s"
    | (go) "player = Some (current_player s)" "winner s = None" "0 \<le> r" "r \<le> 8" "0 \<le> c"
    using move_pawn_cases [of s player coord] coord by auto
  then show ?thesis
  proof cases
    case same
    with ok show ?thesis by simp
  next
    case go
    show ?thesis
    proof (cases "c \<le> 8")
      case True
      with go have t: "on_board (c, r)" by (simp add: on_board_def)
      show ?thesis
        unfolding coord move_pawn_on_board [OF ok t go(2) go(1)]
        using ok move_pawn_success_board_ok [OF ok t _ go(1)]
        by auto
    next
      case False
      then have "9 \<le> c" by simp
      from move_pawn_off_board [OF ok go(3,4) this go(2) go(1)] ok coord
      show ?thesis by simp
    qed
  qed
qed

lemma board_ok_cong: "board s' = board s \<Longrightarrow> board_ok s' = board_ok s"
  by (simp add: board_ok_def pawn_at_def cell_of_def)

lemma board_ok_fence_update:
  assumes ok: "board_ok s" and sh: "shape b"
    and cells: "\<And>x. board_cell b x = (if x = pos then f (board_cell (board s) x) else board_cell (board s) x)"
    and pw: "\<And>y. pawn (f y) = pawn y"
    and vf: "\<And>y. vfence y \<noteq> None \<Longrightarrow> vfence (f y) \<noteq> None"
  shows "board_ok (s\<lparr>board := b\<rparr>)"
proof -
  have pawns: "pawn_at (s\<lparr>board := b\<rparr>) x = pawn_at s x" for x
    by (simp add: pawn_at_def cell_of_def cells pw)
  have fences: "vfence (cell_of (s\<lparr>board := b\<rparr>) x) \<noteq> None" if "vfence (cell_of s x) \<noteq> None" for x
  proof (cases "x = pos")
    case True
    from that have "vfence (f (board_cell (board s) x)) \<noteq> None"
      unfolding cell_of_def by (rule vf)
    with True show ?thesis by (simp add: cell_of_def cells)
  next
    case False
    with that show ?thesis by (simp add: cell_of_def cells)
  qed
  show ?thesis
    using ok sh fences unfolding board_ok_def pawns by simp
qed

lemma place_fence_guard:
  "snd coord < 0 \<or> snd coord > 8 \<or> fst coord < 0 \<Longrightarrow>
     place_fence s player orient coord = (Inr (RetBool False), s)"
  by (auto simp add: place_fence_def Let_def)

lemma board_get_column_bound:
  assumes sh: "shape b" and i: "0 \<le> i" "i \<le> 9" and got: "board_get b i j \<noteq> None"
  shows "j \<le> 9"
proof (rule ccontr)
  assume "\<not> j \<le> 9"
  then have "10 \<le> j" by simp
  with board_get_column_out [OF sh _ i(2) this] i got show False by simp
qed

lemma board_set_board_ok:
  assumes ok: "board_ok s" and r: "0 \<le> r" "r \<le> 8" and c: "0 \<le> c"
    and got: "board_get (board s) r c \<noteq> None"
    and set: "board_set (board s) r c f = Some b"
    and pw: "\<And>y. pawn (f y) = pawn y"
    and vf: "\<And>y. vfence y \<noteq> None \<Longrightarrow> vfence (f y) \<noteq> None"
  shows "board_ok (s\<lparr>board := b\<rparr>)"
proof -
  note sh = board_ok_shape [OF ok]
  from r have r9: "r \<le> 9" by simp
  have c9: "c \<le> 9" by (rule board_get_column_bound [OF sh r(1) r9 got])
  from board_set_in [OF sh r(1) r9 c c9, of f]
  obtain b' where set': "board_set (board s) r c f = Some b'" and shb': "shape b'"
    and cells': "\<forall>x. board_cell b' x
        = (if x = (c, r) then f (board_cell (board s) x) else board_cell (board s) x)"
    by blast
  from set set' have eq: "b' = b" by simp
  have shb: "shape b" using shb' eq by simp
  have cells: "board_cell b x
      = (if x = (c, r) then f (board_cell (board s) x) else board_cell (board s) x)" for x
    using cells' eq by blast
  show ?thesis by (rule board_ok_fence_update [OF ok shb cells pw vf])
qed

lemma place_fence_board_ok:
  assumes ok: "board_ok s"
  shows "board_ok (snd (place_fence s player orient coord))"
proof (cases "snd coord < 0 \<or> snd coord > 8 \<or> fst coord < 0")
  case True
  with ok show ?thesis by (simp add: place_fence_guard)
next
  case False
  then have r: "0 \<le> snd coord" "snd coord \<le> 8" and c: "0 \<le> fst coord" by simp_all
  have h: "board_ok (s\<lparr>board := b\<rparr>)"
    if "hfence_free s (snd coord) (fst coord) = Some True"
      and "board_set (board s) (snd coord) (fst coord) (\<lambda>x. x\<lparr>hfence := Some (Fence orient)\<rparr>) = Some b"
    for b
  proof -
    from that(1) have "board_get (board s) (snd coord) (fst coord) \<noteq> None"
      by (auto simp add: hfence_free_def)
    from board_set_board_ok [OF ok r c this that(2)] show ?thesis by simp
  qed
  have v: "board_ok (s\<lparr>board := b\<rparr>)"
    if "vfence_free s (snd coord) (fst coord) = Some True"
      and "board_set (board s) (snd coord) (fst coord) (\<lambda>x. x\<lparr>vfence := Some (Fence orient)\<rparr>) = Some b"
    for b
  proof -
    from that(1) have "board_get (board s) (snd coord) (fst coord) \<noteq> None"
      by (auto simp add: vfence_free_def)
    from board_set_board_ok [OF ok r c this that(2)] show ?thesis by simp
  qed
  have keep: "board_ok (snd (fence_placed_success s' q))" if "board_ok s'" for s' q
    using that board_ok_cong [OF fence_placed_success_board, of s' q] by simp
  from place_fence_cases [of s player orient coord]
  have "place_fence s player orient coord = (Inr (RetBool False), s)
    \<or> place_fence s player orient coord = (Inl IndexError, s)
    \<or> (\<exists>b. hfence_free s (snd coord) (fst coord) = Some True
          \<and> board_set (board s) (snd coord) (fst coord)
                (\<lambda>x. x\<lparr>hfence := Some (Fence orient)\<rparr>) = Some b
          \<and> place_fence s player orient coord = fence_placed_success (s\<lparr>board := b\<rparr>) player)
    \<or> (\<exists>b. vfence_free s (snd coord) (fst coord) = Some True
          \<and> board_set (board s) (snd coord) (fst coord)
                (\<lambda>x. x\<lparr>vfence := Some (Fence orient)\<rparr>) = Some b
          \<and> place_fence s player orient coord = fence_placed_success (s\<lparr>board := b\<rparr>) player)"
    by blast
  then show ?thesis
  proof (elim disjE conjE exE)
    assume "place_fence s player orient coord = (Inr (RetBool False), s)"
    with ok show ?thesis by simp
  next
    assume "place_fence s player orient coord = (Inl IndexError, s)"
    with ok show ?thesis by simp
  next
    fix b
    assume free: "hfence_free s (snd coord) (fst coord) = Some True"
      and set: "board_set (board s) (snd coord) (fst coord) (\<lambda>x. x\<lparr>hfence := Some (Fence orient)\<rparr>) = Some b"
      and res: "place_fence s player orient coord = fence_placed_success (s\<lparr>board := b\<rparr>) player"
    from free set have "board_ok (s\<lparr>board := b\<rparr>)" by (rule h)
    then show ?thesis unfolding res by (rule keep)
  next
    fix b
    assume free: "vfence_free s (snd coord) (fst coord) = Some True"
      and set: "board_set (board s) (snd coord) (fst coord) (\<lambda>x. x\<lparr>vfence := Some (Fence orient)\<rparr>) = Some b"
      and res: "place_fence s player orient coord = fence_placed_success (s\<lparr>board := b\<rparr>) player"
    from free set have "board_ok (s\<lparr>board := b\<rparr>)" by (rule v)
    then show ?thesis unfolding res by (rule keep)
  qed
qed

lemma call_board_ok: "board_ok s \<Longrightarrow> board_ok (snd (call s a))"
  by (cases a) (simp_all add: move_pawn_board_ok place_fence_board_ok)

lemma run_board_ok: "board_ok s \<Longrightarrow> board_ok (run s as)"
  by (induction as arbitrary: s) (simp_all add: call_board_ok)

lemma new_game_cell_of:
  "0 \<le> c \<Longrightarrow> c \<le> 9 \<Longrightarrow> 0 \<le> r \<Longrightarrow> r \<le> 9 \<Longrightarrow>
     cell_of new_game (c, r) = start_cell (nat r) (nat c)"
  by (simp add: cell_of_def board_cell_def new_game_cell)

lemma new_game_pawn_at:
  "pawn_at new_game x = (if x = (4, 0) then Some 1 else if x = (4, 8) then Some 2 else None)"
proof (cases x)
  case (Pair c r)
  show ?thesis
  proof (cases "0 \<le> c \<and> c \<le> 9 \<and> 0 \<le> r \<and> r \<le> 9")
    case True
    then show ?thesis
      unfolding Pair pawn_at_def
      by (auto simp add: new_game_cell_of start_cell_def)
  next
    case False
    then show ?thesis
      unfolding Pair by (auto simp add: pawn_at_outside)
  qed
qed

lemma new_game_board_ok: "board_ok new_game"
proof -
  have sh: "shape (board new_game)"
    by (simp add: new_game_board shape_def)
  have col: "vfence (cell_of new_game (9, r)) \<noteq> None" if "0 \<le> r" "r \<le> 8" for r
    using that by (simp add: new_game_cell_of start_cell_def)
  show ?thesis
    unfolding board_ok_def using sh col
    by (auto simp add: new_game_pawn_at on_board_def split: if_splits)
qed

lemma pawn_unique:
  "board_ok s \<Longrightarrow> pawn_at s x = Some p \<Longrightarrow> pawn_at s y = Some p \<Longrightarrow> x = y"
  unfolding board_ok_def by (metis option.distinct(1))

text \<open>
  Claim C9.  Take any state reached from the new game in which no winner is decided,
  the player whose turn it is, and a target on the 9 x 9 board.  \<^verbatim>\<open>move_pawn\<close>
  raises nothing and returns \<^verbatim>\<open>True\<close> exactly when the caller's pawn stands on
  one of the four orthogonally adjacent cells and the edge between that cell and
  the target carries no fence; otherwise it returns \<^verbatim>\<open>False\<close>.  In particular
  it returns \<^verbatim>\<open>False\<close> whenever the caller's pawn stands on a cell that is not
  orthogonally adjacent to the target (a distant or a diagonal cell, or the target
  itself), and whenever the edge to the target is fenced.
\<close>

theorem move_pawn_iff_legal:
  assumes t: "on_board t" and w: "winner (run new_game as) = None"
  shows "fst (move_pawn (run new_game as) (Some (current_player (run new_game as))) t)
      = Inr (RetBool (legal_move (run new_game as) (Some (current_player (run new_game as))) t))
    \<and> (\<forall>src. pawn_at (run new_game as) src = Some (current_player (run new_game as))
          \<and> (src \<notin> set (orthogonal_neighbours t) \<or> edge_fence (run new_game as) src t \<noteq> None)
        \<longrightarrow> fst (move_pawn (run new_game as) (Some (current_player (run new_game as))) t)
             = Inr (RetBool False))"
proof -
  let ?s = "run new_game as"
  let ?p = "Some (current_player ?s)"
  have ok: "board_ok ?s" by (rule run_board_ok [OF new_game_board_ok])
  obtain c r where tc: "t = (c, r)" by (cases t)
  have res: "fst (move_pawn ?s ?p t) = Inr (RetBool (legal_move ?s ?p t))"
    using move_pawn_result [OF ok _ w refl, of c r] t unfolding tc by simp
  have no: "\<not> legal_move ?s ?p t"
    if src: "pawn_at ?s src = ?p"
      and bad: "src \<notin> set (orthogonal_neighbours t) \<or> edge_fence ?s src t \<noteq> None" for src
  proof
    assume "legal_move ?s ?p t"
    then obtain src' where n: "src' \<in> set (orthogonal_neighbours t)"
      and there: "pawn_at ?s src' = ?p" and free: "edge_fence ?s src' t = None"
      unfolding legal_move_def list_ex_iff by blast
    from pawn_unique [OF ok there src] have "src' = src" .
    with n free bad show False by simp
  qed
  have "fst (move_pawn ?s ?p t) = Inr (RetBool False)"
    if "pawn_at ?s src = ?p
      \<and> (src \<notin> set (orthogonal_neighbours t) \<or> edge_fence ?s src t \<noteq> None)" for src
    using res no [of src] that by simp
  with res show ?thesis by blast
qed

theorem move_pawn_iff_legal_witness:
  "on_board (4, 7) \<and> winner (run new_game fence_before_p2) = None
   \<and> pawn_at (run new_game fence_before_p2) (4, 8) = Some 2
   \<and> edge_fence (run new_game fence_before_p2) (4, 8) (4, 7) \<noteq> None
   \<and> fst (move_pawn (run new_game fence_before_p2) (Some 2) (4, 7)) = Inr (RetBool False)
   \<and> legal_move (run new_game fence_before_p2) (Some 2) (3, 8)
   \<and> fst (move_pawn (run new_game fence_before_p2) (Some 2) (3, 8)) = Inr (RetBool True)"
proof -
  have t: "on_board (4, 7)" and t': "on_board (3, 8)" by (simp_all add: on_board_def)
  have w: "winner (run new_game fence_before_p2) = None" by code_simp
  have c: "current_player (run new_game fence_before_p2) = 2" by code_simp
  have src: "pawn_at (run new_game fence_before_p2) (4, 8) = Some 2" by code_simp
  have f: "edge_fence (run new_game fence_before_p2) (4, 8) (4, 7) \<noteq> None" by code_simp
  have l: "legal_move (run new_game fence_before_p2) (Some 2) (3, 8)" by code_simp
  from move_pawn_iff_legal [OF t w] src f
  have blocked: "fst (move_pawn (run new_game fence_before_p2) (Some 2) (4, 7)) = Inr (RetBool False)"
    unfolding c by blast
  from move_pawn_iff_legal [OF t' w] l
  have free: "fst (move_pawn (run new_game fence_before_p2) (Some 2) (3, 8)) = Inr (RetBool True)"
    unfolding c by simp
  show ?thesis
    using t w src f l blocked free by blast
qed

subsection \<open>The code at the inputs where it leaves the specification\<close>

text \<open>
  Claim C1 at column 9.  The guard never compares the column with 8, so in the new
  game a horizontal fence at (9, 1) is accepted: the call returns \<^verbatim>\<open>True\<close>,
  stores the fence, charges player 1 and passes the turn.  A move to (9, 4) raises
  \<^verbatim>\<open>IndexError\<close> when the fourth branch reads column 10, and from column 10 on
  both methods raise.
\<close>

theorem column_out_of_bounds:
  "fst (place_fence new_game (Some 1) ''h'' (9, 1)) = Inr (RetBool True)
   \<and> hfence (cell_of (snd (place_fence new_game (Some 1) ''h'' (9, 1))) (9, 1)) = Some (Fence ''h'')
   \<and> p1_fence_count (snd (place_fence new_game (Some 1) ''h'' (9, 1))) = 9
   \<and> current_player (snd (place_fence new_game (Some 1) ''h'' (9, 1))) = 2
   \<and> fst (move_pawn new_game (Some 1) (9, 4)) = Inl IndexError
   \<and> fst (move_pawn new_game (Some 1) (10, 4)) = Inl IndexError
   \<and> fst (place_fence new_game (Some 1) ''h'' (10, 1)) = Inl IndexError"
  by code_simp

theorem column_out_of_bounds_witness:
  "winner new_game = None \<and> Some 1 = Some (current_player new_game)
   \<and> p1_fence_count new_game \<noteq> 0
   \<and> fst (place_fence new_game (Some 1) ''h'' (9, 1)) = Inr (RetBool True)
   \<and> fst (move_pawn new_game (Some 1) (9, 4)) = Inl IndexError"
  using column_out_of_bounds by (simp add: new_game_scalars)

text \<open>
  Claim C2 for player 2.  Eight legal moves bring player 2 to column 0; the last
  one returns \<^verbatim>\<open>True\<close> and sets the winner field to 0, so \<^verbatim>\<open>is_winner(2)\<close>
  is false and \<^verbatim>\<open>is_winner(0)\<close> is true.
\<close>

theorem player_2_wins_as_0:
  "outcomes new_game p2_reaches_column_0 = replicate 8 (Inr (RetBool True))
   \<and> pawn_at (run new_game p2_reaches_column_0) (0, 8) = Some 2
   \<and> winner (run new_game p2_reaches_column_0) = Some 0
   \<and> \<not> is_winner (run new_game p2_reaches_column_0) (Some 2)
   \<and> is_winner (run new_game p2_reaches_column_0) (Some 0)"
  by code_simp

theorem player_2_wins_as_0_witness:
  "winner (run new_game (butlast p2_reaches_column_0)) = None
   \<and> Some 2 = Some (current_player (run new_game (butlast p2_reaches_column_0)))
   \<and> winner (run new_game p2_reaches_column_0) = Some 0
   \<and> \<not> is_winner (run new_game p2_reaches_column_0) (Some 2)"
proof -
  have a: "winner (run new_game (butlast p2_reaches_column_0)) = None
   \<and> Some 2 = Some (current_player (run new_game (butlast p2_reaches_column_0)))"
    by code_simp
  show ?thesis using a player_2_wins_as_0 by blast
qed

text \<open>
  Claim C3 where the pawns meet.  Every move of the scenario returns \<^verbatim>\<open>True\<close>;
  the last one puts player 2's pawn on the cell of player 1's pawn, after which no
  cell of the board holds a pawn of player 1.
\<close>

theorem pawn_erased:
  "pawn_count new_game 1 = 1 \<and> pawn_count new_game 2 = 1
   \<and> outcomes new_game pawns_meet = replicate 8 (Inr (RetBool True))
   \<and> pawn_count (run new_game pawns_meet) 1 = 0
   \<and> pawn_count (run new_game pawns_meet) 2 = 1
   \<and> pawn_at (run new_game pawns_meet) (4, 4) = Some 2"
  by code_simp

theorem pawn_erased_witness:
  "winner (run new_game (butlast pawns_meet)) = None
   \<and> Some 2 = Some (current_player (run new_game (butlast pawns_meet)))
   \<and> pawn_at (run new_game (butlast pawns_meet)) (4, 4) = Some 1
   \<and> pawn_at (run new_game pawns_meet) (4, 4) = Some 2
   \<and> pawn_count (run new_game pawns_meet) 1 = 0"
proof -
  have a: "winner (run new_game (butlast pawns_meet)) = None
   \<and> Some 2 = Some (current_player (run new_game (butlast pawns_meet)))
   \<and> pawn_at (run new_game (butlast pawns_meet)) (4, 4) = Some 1"
    by code_simp
  show ?thesis using a pawn_erased by blast
qed

text \<open>
  Claim C4 at the sentinel row.  The constructor returns; both reserves are 10, it is
  player 1's turn, there is no winner and the pawns stand on (4, 0) and (4, 8).
  Row 0 holds a horizontal fence in every column and columns 0 and 9 hold a vertical
  fence in rows 0 to 8.  The horizontal slots of row 9 are all empty: the
  constructor's calls for that row are turned away by the guard of
  \<^verbatim>\<open>place_fence\<close>, which rejects every row above 8.
\<close>

theorem sentinel_row_unfenced:
  "QuoridorGame_init = Inr new_game
   \<and> p1_fence_count new_game = 10 \<and> p2_fence_count new_game = 10
   \<and> current_player new_game = 1 \<and> winner new_game = None
   \<and> pawn_at new_game (4, 0) = Some 1 \<and> pawn_at new_game (4, 8) = Some 2
   \<and> map (\<lambda>column. hfence (cell_of new_game (column, 0))) [0..9] = replicate 10 (Some (Fence ''h''))
   \<and> map (\<lambda>row. vfence (cell_of new_game (0, row))) [0..8] = replicate 9 (Some (Fence ''v''))
   \<and> map (\<lambda>row. vfence (cell_of new_game (9, row))) [0..8] = replicate 9 (Some (Fence ''v''))
   \<and> map (\<lambda>column. hfence (cell_of new_game (column, 9))) [0..9] = replicate 10 None
   \<and> fst (place_fence (projr blank_game) None ''h'' (4, 9)) = Inr (RetBool False)"
  by code_simp

theorem sentinel_row_unfenced_witness:
  "winner (projr blank_game) = None
   \<and> hfence (cell_of new_game (4, 9)) = None
   \<and> fst (place_fence (projr blank_game) None ''h'' (4, 9)) = Inr (RetBool False)"
proof -
  have a: "winner (projr blank_game) = None" by code_simp
  have b: "hfence (cell_of new_game (4, 9)) = None" by code_simp
  show ?thesis using a b sentinel_row_unfenced by blast
qed

subsection \<open>A decided game stays decided\<close>

lemma move_pawn_over: "winner s \<noteq> None \<Longrightarrow> move_pawn s q c = (Inr (RetBool False), s)"
  by (simp add: move_pawn_def Let_def)

lemma place_fence_over:
  "winner s \<noteq> None \<Longrightarrow> place_fence s q orient c = (Inr (RetBool False), s)"
  by (simp add: place_fence_def Let_def)

lemma call_over: "winner s \<noteq> None \<Longrightarrow> call s a = (Inr (RetBool False), s)"
  by (cases a) (simp_all add: move_pawn_over place_fence_over)

lemma run_over: "winner s \<noteq> None \<Longrightarrow> run s as = s"
  by (induction as) (simp_all add: call_over)

lemma outcomes_over:
  "winner s \<noteq> None \<Longrightarrow> x \<in> set (outcomes s as) \<Longrightarrow> x = Inr (RetBool False)"
  by (induction as) (auto simp: call_over)

text \<open>
  Claim C6.  Once \<^verbatim>\<open>is_winner\<close> answers true for a player value \<open>p\<close> (which is
  the case exactly when the winner field holds \<open>p\<close>), every later
  \<^verbatim>\<open>move_pawn\<close> and \<^verbatim>\<open>place_fence\<close>, whoever calls it, returns
  \<^verbatim>\<open>False\<close> and changes nothing: any sequence of calls leaves the state, and so
  the winner, as it was, and all its results are \<^verbatim>\<open>False\<close>.
\<close>

theorem winner_is_terminal:
  assumes "is_winner s (Some p)"
  shows "winner s = Some p
    \<and> move_pawn s q c = (Inr (RetBool False), s)
    \<and> place_fence s q orient c = (Inr (RetBool False), s)
    \<and> run s as = s \<and> winner (run s as) = Some p
    \<and> (\<forall>x \<in> set (outcomes s as). x = Inr (RetBool False))"
proof -
  from assms have w: "winner s = Some p"
    by (simp add: is_winner_def split: if_splits)
  then have over: "winner s \<noteq> None" by simp
  show ?thesis
    using w over outcomes_over [OF over, of _ as]
    by (simp add: move_pawn_over place_fence_over run_over)
qed

theorem winner_is_terminal_witness:
  "is_winner (run new_game p1_reaches_column_8) (Some 1)
   \<and> move_pawn (run new_game p1_reaches_column_8) (Some 2) (4, 6)
       = (Inr (RetBool False), run new_game p1_reaches_column_8)
   \<and> place_fence (run new_game p1_reaches_column_8) (Some 2) ''h'' (3, 3)
       = (Inr (RetBool False), run new_game p1_reaches_column_8)
   \<and> run (run new_game p1_reaches_column_8) [Move_pawn (Some 2) (4, 6), Move_pawn (Some 1) (7, 0)]
       = run new_game p1_reaches_column_8"
proof -
  have h: "is_winner (run new_game p1_reaches_column_8) (Some 1)" by code_simp
  show ?thesis
    using h
      winner_is_terminal [OF h, of "Some 2" "(4, 6)" "''h''"
        "[Move_pawn (Some 2) (4, 6), Move_pawn (Some 1) (7, 0)]"]
      winner_is_terminal [OF h, of "Some 2" "(3, 3)" "''h''" "[]"]
    by blast
qed

subsection \<open>The win query on the null player\<close>

text \<open>
  Claim C10.  \<^verbatim>\<open>is_winner\<close> compares its argument with the winner field and
  nothing more, so in every state without a winner the query for the null player
  (\<^verbatim>\<open>None\<close>) answers true.
\<close>

theorem is_winner_null_player: "winner s = None \<Longrightarrow> is_winner s None"
  by (simp add: is_winner_def)

theorem is_winner_null_player_witness: "winner new_game = None \<and> is_winner new_game None"
proof -
  have h: "winner new_game = None" by code_simp
  show ?thesis using h is_winner_null_player [OF h] by simp
qed

end
